theory Spec2Isabelle
  imports Main "HOL-Library.Word"
begin

section \<open>The Carbon Black registry loader (dissect/target/loaders/cb.py)\<close>

text \<open>
  The theory embeds the registry part of the loader: \<open>CbRegistryValue\<close> (the value
  decoder), \<open>CbRegistryKey\<close> (the lazily fetched key node), \<open>CbRegistryHive\<close> and the
  loop of \<open>CbRegistry._init_registry\<close>.

  Python strings are modelled as \<open>string\<close> (a list of 8-bit characters), so the model
  speaks about ASCII text: a character above 127 is kept as it is by \<open>lower\<close>, and it
  is neither a digit nor white space.
\<close>

subsection \<open>Exceptions\<close>

datatype error =
    RegistryError string
  | RegistryKeyNotFoundError string
  | RegistryValueNotFoundError string
  | ValueError
  | KeyError string
  | IndexError
  | LiveResponseError string

text \<open>
  Modelled from the spec: the exception classes are declared in
  \<open>dissect.target.exceptions\<close>, which is not among the source files. The
  ``registry-layer errors'' that \<open>except RegistryError\<close> catches are \<open>RegistryError\<close>
  and the two lookup errors, which the loader imports next to it.
\<close>

fun is_RegistryError :: "error \<Rightarrow> bool" where
  "is_RegistryError (RegistryError _) = True"
| "is_RegistryError (RegistryKeyNotFoundError _) = True"
| "is_RegistryError (RegistryValueNotFoundError _) = True"
| "is_RegistryError _ = False"

subsection \<open>The string methods the loader calls\<close>

text \<open>\<open>str.lower()\<close> on ASCII text: the letters A to Z become a to z.\<close>

definition lower_char :: "char \<Rightarrow> char" where
  "lower_char c =
     (case map_of (zip ''ABCDEFGHIJKLMNOPQRSTUVWXYZ'' ''abcdefghijklmnopqrstuvwxyz'') c of
        Some l \<Rightarrow> l
      | None \<Rightarrow> c)"

definition lower :: "string \<Rightarrow> string" where
  "lower s = map lower_char s"

text \<open>\<open>sep.join(parts)\<close>.\<close>

fun join :: "string \<Rightarrow> string list \<Rightarrow> string" where
  "join sep [] = []"
| "join sep [x] = x"
| "join sep (x # y # ys) = x @ sep @ join sep (y # ys)"

text \<open>
  \<open>s.split(sep)\<close> for a separator of one character, the only kind the loader uses:
  every occurrence splits, empty pieces are kept, and the result is never empty.
\<close>

fun split :: "char \<Rightarrow> string \<Rightarrow> string list" where
  "split sep [] = [[]]"
| "split sep (c # cs) =
     (if c = sep then [] # split sep cs
      else (case split sep cs of
              [] \<Rightarrow> [[c]]
            | w # ws \<Rightarrow> (c # w) # ws))"

abbreviation backslash :: char where
  "backslash \<equiv> CHR 0x5C"

text \<open>
  The C library's notion of white space that \<open>bytes.fromhex\<close> and \<open>int\<close> skip
  (\<open>Py_ISSPACE\<close>): space, tab, line feed, vertical tab, form feed, carriage return.
\<close>

definition Py_ISSPACE :: "char \<Rightarrow> bool" where
  "Py_ISSPACE c = (c \<in> set [CHR 0x20, CHR 0x09, CHR 0x0A, CHR 0x0B, CHR 0x0C, CHR 0x0D])"

text \<open>The value of a digit character in a base up to 16 (\<open>_PyLong_DigitValue\<close>).\<close>

definition digit_value :: "char \<Rightarrow> nat option" where
  "digit_value c =
     (let n = (of_char c :: nat) in
      if 48 \<le> n \<and> n \<le> 57 then Some (n - 48)
      else if 97 \<le> n \<and> n \<le> 102 then Some (n - 87)
      else if 65 \<le> n \<and> n \<le> 70 then Some (n - 55)
      else None)"

text \<open>
  \<open>bytes.fromhex(data)\<close>: two hexadecimal digits per byte; white space is skipped in
  front of a byte, never between its two digits; anything else raises \<open>ValueError\<close>.
\<close>

fun fromhex :: "string \<Rightarrow> error + 8 word list" where
  "fromhex [] = Inr []"
| "fromhex [c] = (if Py_ISSPACE c then Inr [] else Inl ValueError)"
| "fromhex (c # d # cs) =
     (if Py_ISSPACE c then fromhex (d # cs)
      else (case (digit_value c, digit_value d) of
              (Some t, Some b) \<Rightarrow>
                (case fromhex cs of
                   Inl e \<Rightarrow> Inl e
                 | Inr bs \<Rightarrow> Inr (word_of_nat (16 * t + b) # bs))
            | _ \<Rightarrow> Inl ValueError))"

text \<open>
  \<open>int(data)\<close> for a string, base 10: white space around the literal is dropped, one
  sign may lead, and the digits may be grouped by single underscores (not leading, not
  trailing, not doubled). The result is an unbounded integer. The interpreter's optional
  limit on the number of digits of a literal is a setting of the run time, not of the
  loader; the model is \<open>int\<close> with that limit switched off.
\<close>

definition is_digit :: "char \<Rightarrow> bool" where
  "is_digit c = (let n = (of_char c :: nat) in 48 \<le> n \<and> n \<le> 57)"

definition underscore :: char where
  "underscore = CHR 0x5F"

fun no_double_underscore :: "string \<Rightarrow> bool" where
  "no_double_underscore (a # b # cs) =
     (\<not> (a = underscore \<and> b = underscore) \<and> no_double_underscore (b # cs))"
| "no_double_underscore _ = True"

definition digits_value :: "string \<Rightarrow> int" where
  "digits_value ds = foldl (\<lambda>a c. 10 * a + int (of_char c - 48)) 0 ds"

definition int_py :: "string \<Rightarrow> error + int" where
  "int_py s =
     (let s1 = dropWhile Py_ISSPACE s;
          neg = (s1 \<noteq> [] \<and> hd s1 = CHR ''-'');
          s2 = (if s1 \<noteq> [] \<and> (hd s1 = CHR ''+'' \<or> hd s1 = CHR ''-'') then tl s1 else s1);
          body = takeWhile (\<lambda>c. is_digit c \<or> c = underscore) s2;
          rest = dropWhile (\<lambda>c. is_digit c \<or> c = underscore) s2
      in if body = [] \<or> hd body = underscore \<or> last body = underscore
            \<or> \<not> no_double_underscore body \<or> dropWhile Py_ISSPACE rest \<noteq> []
         then Inl ValueError
         else let v = digits_value (filter (\<lambda>c. c \<noteq> underscore) body)
              in Inr (if neg then - v else v))"

subsection \<open>Registry values: \<open>CbRegistryValue\<close>\<close>

text \<open>
  The decoded payload is a byte string, an integer, a list of strings or a string,
  according to the wire tag.
\<close>

datatype payload =
    BytesVal "8 word list"
  | IntVal int
  | ListVal "string list"
  | StrVal string

text \<open>
  A hive keeps its root key and a reference to the one live-response session that all
  hives and nodes share. The session is not a field here: the methods that use it get it
  as an argument and return it (see below), which is how the sharing is modelled.
\<close>

record CbRegistryHive =
  rootkey :: string

record CbRegistryValue =
  value_hive :: CbRegistryHive
  value_name :: string
  value_type :: string
  value_payload :: payload

text \<open>
  \<open>CbRegistryValue.__init__(hive, name, data, type_)\<close>: the tag is compared as a string, in
  the order of the source; a decoding error leaves the constructor as an exception, so no
  value object exists then.
\<close>

definition decode :: "string \<Rightarrow> string \<Rightarrow> error + payload" where
  "decode data tag =
     (if tag = ''pbREG_BINARY'' then
        (case fromhex data of Inl e \<Rightarrow> Inl e | Inr bs \<Rightarrow> Inr (BytesVal bs))
      else if tag \<in> set [''pbREG_DWORD'', ''pbREG_QWORD''] then
        (case int_py data of Inl e \<Rightarrow> Inl e | Inr i \<Rightarrow> Inr (IntVal i))
      else if tag = ''pbREG_MULTI_SZ'' then Inr (ListVal (split (CHR 0x2C) data))
      else Inr (StrVal data))"

definition CbRegistryValue_init ::
  "CbRegistryHive \<Rightarrow> string \<Rightarrow> string \<Rightarrow> string \<Rightarrow> error + CbRegistryValue" where
  "CbRegistryValue_init h name data tag =
     (case decode data tag of
        Inl e \<Rightarrow> Inl e
      | Inr v \<Rightarrow> Inr \<lparr>value_hive = h, value_name = name, value_type = tag, value_payload = v\<rparr>)"

subsection \<open>The remote session\<close>

text \<open>
  One raw value record of the remote answer, with the three entries the loader reads
  (\<open>registry_name\<close>, \<open>registry_data\<close>, \<open>registry_type\<close>).
\<close>

record value_record =
  registry_name :: string
  registry_data :: string
  registry_type :: string

text \<open>
  The dict that \<open>list_registry_keys_and_values\<close> returns. The loader reads its entries
  \<open>"sub_keys"\<close> and \<open>"values"\<close>; an entry that the dict does not have is \<open>None\<close> here, and
  the dict without entries is the empty dict, the only dict that Python takes for false.
\<close>

record reg_data =
  sub_keys :: "string list option"
  reg_values :: "value_record list option"

definition empty_dict :: "reg_data \<Rightarrow> bool" where
  "empty_dict d = (sub_keys d = None \<and> reg_values d = None)"

text \<open>
  The live-response session is outside the loader. It is modelled by what the loader can
  see of it: the answer to a call, which may depend on the path asked for and on all the
  calls made before, and the log of the calls made so far. An answer is the dict or the
  exception the call raises.
\<close>

record session =
  respond :: "string list \<Rightarrow> string \<Rightarrow> error + reg_data"
  calls :: "string list"

definition list_registry_keys_and_values ::
  "session \<Rightarrow> string \<Rightarrow> (error + reg_data) \<times> session" where
  "list_registry_keys_and_values s path =
     (respond s (calls s) path, s\<lparr>calls := calls s @ [path]\<rparr>)"

subsection \<open>Key nodes: \<open>CbRegistryKey\<close>\<close>

text \<open>
  A node holds its hive, its path \<open>key\<close> and the cache \<open>_data\<close> (the field
  \<open>data_cache\<close> here), \<open>None\<close> after construction. The methods that touch the session
  take the session and the node and return both with the result, since they write the
  cache and the session's log.
\<close>

record CbRegistryKey =
  hive :: CbRegistryHive
  key :: string
  data_cache :: "reg_data option"

definition CbRegistryKey_init ::
  "CbRegistryHive \<Rightarrow> string \<Rightarrow> reg_data option \<Rightarrow> CbRegistryKey" where
  "CbRegistryKey_init h k d = \<lparr>hive = h, key = k, data_cache = d\<rparr>"

text \<open>\<open>not self._data\<close>: true for \<open>None\<close> and for the empty dict.\<close>

definition not_data :: "reg_data option \<Rightarrow> bool" where
  "not_data c = (case c of None \<Rightarrow> True | Some d \<Rightarrow> empty_dict d)"

text \<open>
  The property \<open>data\<close>. When the remote call raises, the assignment to \<open>_data\<close> is not
  reached and the exception leaves the property. The cache is returned as it is when
  \<open>not self._data\<close> is false, which excludes \<open>None\<close>: the last branch below is never
  taken.
\<close>

definition data :: "session \<Rightarrow> CbRegistryKey \<Rightarrow> (error + reg_data) \<times> session \<times> CbRegistryKey" where
  "data s k =
     (if not_data (data_cache k) then
        (case list_registry_keys_and_values s (key k) of
           (Inl e, s') \<Rightarrow> (Inl e, s', k)
         | (Inr d, s') \<Rightarrow> (Inr d, s', k\<lparr>data_cache := Some d\<rparr>))
      else (case data_cache k of
              Some d \<Rightarrow> (Inr d, s, k)
            | None \<Rightarrow> (Inl (KeyError ''_data''), s, k)))"

text \<open>
  The properties \<open>name\<close> and \<open>path\<close>. \<open>split\<close> never returns the empty list, so the
  index \<open>[-1]\<close> never fails; the model keeps the failure branch all the same.
\<close>

definition name :: "CbRegistryKey \<Rightarrow> error + string" where
  "name k = (case split backslash (key k) of [] \<Rightarrow> Inl IndexError | ws \<Rightarrow> Inr (last ws))"

definition path :: "CbRegistryKey \<Rightarrow> string" where
  "path k = key k"

text \<open>\<open>CbRegistryHive.key\<close>.\<close>

definition hive_key :: "CbRegistryHive \<Rightarrow> string \<Rightarrow> CbRegistryKey" where
  "hive_key h k = CbRegistryKey_init h (join [backslash] [rootkey h, k]) None"

text \<open>
  \<open>subkey\<close>: the loop over \<open>self.data["sub_keys"]\<close> returns at the first entry that is
  equal to the argument after lower-casing both; its \<open>else\<close> branch raises.
\<close>

fun subkey_loop :: "CbRegistryKey \<Rightarrow> string \<Rightarrow> string list \<Rightarrow> error + CbRegistryKey" where
  "subkey_loop k subkey [] = Inl (RegistryKeyNotFoundError subkey)"
| "subkey_loop k subkey (val # vals) =
     (if lower val = lower subkey
      then Inr (CbRegistryKey_init (hive k) (join [backslash] [key k, subkey]) None)
      else subkey_loop k subkey vals)"

definition subkey ::
  "session \<Rightarrow> CbRegistryKey \<Rightarrow> string \<Rightarrow> (error + CbRegistryKey) \<times> session \<times> CbRegistryKey" where
  "subkey s k sk =
     (case data s k of
        (Inl e, s', k') \<Rightarrow> (Inl e, s', k')
      | (Inr d, s', k') \<Rightarrow>
          (case sub_keys d of
             None \<Rightarrow> (Inl (KeyError ''sub_keys''), s', k')
           | Some vals \<Rightarrow> (subkey_loop k' sk vals, s', k')))"

text \<open>
  What one \<open>next()\<close> on an iterator does: it yields an item, lets an exception out, or
  signals the end.
\<close>

datatype 'a step = Yield 'a | Raise error | StopIteration

text \<open>
  \<open>subkeys\<close> returns \<open>map(self.subkey, self.data["sub_keys"])\<close>. The list is looked up when
  \<open>subkeys\<close> is called; the \<open>map\<close> object keeps the names not yet visited and calls
  \<open>self.subkey\<close> on one name per \<open>next()\<close>. An exception of that call leaves the name
  consumed and the \<open>map\<close> object usable.
\<close>

definition subkeys ::
  "session \<Rightarrow> CbRegistryKey \<Rightarrow> (error + string list) \<times> session \<times> CbRegistryKey" where
  "subkeys s k =
     (case data s k of
        (Inl e, s', k') \<Rightarrow> (Inl e, s', k')
      | (Inr d, s', k') \<Rightarrow>
          (case sub_keys d of
             None \<Rightarrow> (Inl (KeyError ''sub_keys''), s', k')
           | Some vals \<Rightarrow> (Inr vals, s', k')))"

definition subkeys_next ::
  "session \<Rightarrow> CbRegistryKey \<Rightarrow> string list
     \<Rightarrow> (CbRegistryKey step \<times> string list) \<times> session \<times> CbRegistryKey" where
  "subkeys_next s k it =
     (case it of
        [] \<Rightarrow> ((StopIteration, []), s, k)
      | n # ns \<Rightarrow>
          (case subkey s k n of
             (Inl e, s', k') \<Rightarrow> ((Raise e, ns), s', k')
           | (Inr c, s', k') \<Rightarrow> ((Yield c, ns), s', k')))"

text \<open>\<open>list(it)\<close> on the \<open>map\<close> object: the items up to the end, or the first exception.\<close>

function subkeys_list ::
  "session \<Rightarrow> CbRegistryKey \<Rightarrow> string list
     \<Rightarrow> (error + CbRegistryKey list) \<times> session \<times> CbRegistryKey" where
  "subkeys_list s k it =
     (case subkeys_next s k it of
        ((StopIteration, it'), s', k') \<Rightarrow> (Inr [], s', k')
      | ((Raise e, it'), s', k') \<Rightarrow> (Inl e, s', k')
      | ((Yield c, it'), s', k') \<Rightarrow>
          (case subkeys_list s' k' it' of
             (Inl e, s'', k'') \<Rightarrow> (Inl e, s'', k'')
           | (Inr cs, s'', k'') \<Rightarrow> (Inr (c # cs), s'', k'')))"
  by pat_completeness auto
termination
  by (relation "measure (\<lambda>(s, k, it). length it)")
     (auto simp: subkeys_next_def split: list.splits prod.splits sum.splits)

text \<open>
  \<open>values\<close> returns a generator over \<open>self.data["values"]\<close>; the list is looked up when
  \<open>values\<close> is called, and each \<open>next()\<close> constructs the \<open>CbRegistryValue\<close> of one
  record. An exception of the constructor leaves the generator through \<open>next()\<close> and
  finishes it: every later \<open>next()\<close> signals the end.
\<close>

definition values' ::
  "session \<Rightarrow> CbRegistryKey \<Rightarrow> (error + value_record list) \<times> session \<times> CbRegistryKey" where
  "values' s k =
     (case data s k of
        (Inl e, s', k') \<Rightarrow> (Inl e, s', k')
      | (Inr d, s', k') \<Rightarrow>
          (case reg_values d of
             None \<Rightarrow> (Inl (KeyError ''values''), s', k')
           | Some recs \<Rightarrow> (Inr recs, s', k')))"

definition construct :: "CbRegistryKey \<Rightarrow> value_record \<Rightarrow> error + CbRegistryValue" where
  "construct k val =
     CbRegistryValue_init (hive k) (registry_name val) (registry_data val) (registry_type val)"

definition values_next ::
  "CbRegistryKey \<Rightarrow> value_record list \<Rightarrow> CbRegistryValue step \<times> value_record list" where
  "values_next k g =
     (case g of
        [] \<Rightarrow> (StopIteration, [])
      | val # rest \<Rightarrow>
          (case construct k val of
             Inl e \<Rightarrow> (Raise e, [])
           | Inr v \<Rightarrow> (Yield v, rest)))"

text \<open>
  \<open>value\<close>: the loop over \<open>self.values()\<close> returns the first value whose name is equal to
  the argument after lower-casing both; its \<open>else\<close> branch raises. An exception of the
  generator leaves the loop.
\<close>

function value_loop ::
  "CbRegistryKey \<Rightarrow> string \<Rightarrow> value_record list \<Rightarrow> error + CbRegistryValue" where
  "value_loop k v g =
     (case values_next k g of
        (StopIteration, g') \<Rightarrow> Inl (RegistryValueNotFoundError v)
      | (Raise e, g') \<Rightarrow> Inl e
      | (Yield val, g') \<Rightarrow>
          (if lower (value_name val) = lower v then Inr val else value_loop k v g'))"
  by pat_completeness auto
termination
  by (relation "measure (\<lambda>(k, v, g). length g)")
     (auto simp: values_next_def split: list.splits sum.splits)

definition value' ::
  "session \<Rightarrow> CbRegistryKey \<Rightarrow> string \<Rightarrow> (error + CbRegistryValue) \<times> session \<times> CbRegistryKey" where
  "value' s k v =
     (case values' s k of
        (Inl e, s', k') \<Rightarrow> (Inl e, s', k')
      | (Inr g, s', k') \<Rightarrow> (value_loop k' v g, s', k'))"

text \<open>
  A caller that keeps calling \<open>next()\<close> on the generator until it signals the end, and
  notes what each call gave, exceptions included.
\<close>

function values_trace :: "CbRegistryKey \<Rightarrow> value_record list \<Rightarrow> CbRegistryValue step list" where
  "values_trace k g =
     (case values_next k g of
        (StopIteration, g') \<Rightarrow> []
      | (Raise e, g') \<Rightarrow> Raise e # values_trace k g'
      | (Yield val, g') \<Rightarrow> Yield val # values_trace k g')"
  by pat_completeness auto
termination
  by (relation "measure (\<lambda>(k, g). length g)")
     (auto simp: values_next_def split: list.splits sum.splits)

text \<open>
  The four methods of a node that read remote data, as calls a client makes one after
  the other on the same node. \<open>Subkeys\<close> also walks the iterator to its end with
  \<open>list\<close>, since the \<open>map\<close> object calls \<open>subkey\<close> only then.
\<close>

datatype node_call = Subkey string | Subkeys | Value string | Values

fun call :: "session \<times> CbRegistryKey \<Rightarrow> node_call \<Rightarrow> session \<times> CbRegistryKey" where
  "call (s, k) (Subkey n) = snd (subkey s k n)"
| "call (s, k) Subkeys =
     (case subkeys s k of
        (Inl e, s', k') \<Rightarrow> (s', k')
      | (Inr it, s', k') \<Rightarrow> snd (subkeys_list s' k' it))"
| "call (s, k) (Value n) = snd (value' s k n)"
| "call (s, k) Values = snd (values' s k)"

definition run_calls :: "session \<times> CbRegistryKey \<Rightarrow> node_call list \<Rightarrow> session \<times> CbRegistryKey" where
  "run_calls st cs = foldl call st cs"

subsection \<open>The mapper: \<open>CbRegistry._init_registry\<close>\<close>

text \<open>
  The loop runs over the items of \<open>MAPPINGS\<close>, a table of the parent class that is given
  here as a list of pairs \<open>(hive_name, rootkey)\<close>. \<open>add_hive\<close> and \<open>map_hive\<close> are
  methods of the parent class as well; the loop takes them as parameters: each turns the
  plugin's state into a new one and may raise. Constructing the \<open>CbRegistryHive\<close> stores
  two fields and cannot raise. An exception that is a \<open>RegistryError\<close> ends the
  iteration of its entry only; any other exception leaves the loop.
\<close>

fun init_registry ::
  "(string \<Rightarrow> CbRegistryHive \<Rightarrow> string option \<Rightarrow> 'p \<Rightarrow> error option \<times> 'p)
     \<Rightarrow> (string \<Rightarrow> CbRegistryHive \<Rightarrow> 'p \<Rightarrow> error option \<times> 'p)
     \<Rightarrow> (string \<times> string) list \<Rightarrow> 'p \<Rightarrow> error option \<times> 'p" where
  "init_registry add_hive map_hive [] p = (None, p)"
| "init_registry add_hive map_hive ((hive_name, rk) # rest) p =
     (let h = \<lparr>rootkey = rk\<rparr> in
      case add_hive hive_name h None p of
        (Some e, p1) \<Rightarrow>
          (if is_RegistryError e then init_registry add_hive map_hive rest p1
           else (Some e, p1))
      | (None, p1) \<Rightarrow>
          (case map_hive rk h p1 of
             (Some e, p2) \<Rightarrow>
               (if is_RegistryError e then init_registry add_hive map_hive rest p2
                else (Some e, p2))
           | (None, p2) \<Rightarrow> init_registry add_hive map_hive rest p2))"

text \<open>
  Modelled from the spec: \<open>RegistryPlugin.add_hive\<close> and \<open>RegistryPlugin.map_hive\<close> are
  not among the source files. By the spec the first registers the hive under its logical
  name and the second establishes the mapping from the root path; either may raise a
  registry-layer error, which is given here by a table of the names (or roots) that
  fail. A call that raises registers nothing.
\<close>

record registry_plugin =
  hives :: "(string \<times> CbRegistryHive) list"
  mapped :: "(string \<times> CbRegistryHive) list"

definition add_hive ::
  "(string \<Rightarrow> error option) \<Rightarrow> string \<Rightarrow> CbRegistryHive \<Rightarrow> string option
     \<Rightarrow> registry_plugin \<Rightarrow> error option \<times> registry_plugin" where
  "add_hive fails nm h pth p =
     (case fails nm of
        Some e \<Rightarrow> (Some e, p)
      | None \<Rightarrow> (None, p\<lparr>hives := hives p @ [(nm, h)]\<rparr>))"

definition map_hive ::
  "(string \<Rightarrow> error option) \<Rightarrow> string \<Rightarrow> CbRegistryHive
     \<Rightarrow> registry_plugin \<Rightarrow> error option \<times> registry_plugin" where
  "map_hive fails location h p =
     (case fails location of
        Some e \<Rightarrow> (Some e, p)
      | None \<Rightarrow> (None, p\<lparr>mapped := mapped p @ [(location, h)]\<rparr>))"

subsection \<open>Example data\<close>

text \<open>
  A hive, a remote answer with two child keys and three value records (the second one
  carries bad hex under the binary tag), a node that has this answer in its cache, and
  three sessions: one that always gives this answer, one whose first call raises, and
  one that always answers with the empty dict.
\<close>

definition example_hive :: CbRegistryHive where
  "example_hive = \<lparr>rootkey = ''HKEY_LOCAL_MACHINE''\<rparr>"

definition example_records :: "value_record list" where
  "example_records =
     [\<lparr>registry_name = ''Start'', registry_data = ''2'', registry_type = ''pbREG_DWORD''\<rparr>,
      \<lparr>registry_name = ''Blob'', registry_data = ''zz'', registry_type = ''pbREG_BINARY''\<rparr>,
      \<lparr>registry_name = ''Path'', registry_data = ''system32'', registry_type = ''pbREG_SZ''\<rparr>]"

definition example_data :: reg_data where
  "example_data = \<lparr>sub_keys = Some [''System'', ''Software''], reg_values = Some example_records\<rparr>"

definition example_node :: CbRegistryKey where
  "example_node = \<lparr>hive = example_hive, key = ''HKEY_LOCAL_MACHINE'', data_cache = Some example_data\<rparr>"

definition fresh_node :: CbRegistryKey where
  "fresh_node = hive_key example_hive ''SOFTWARE''"

definition steady_session :: session where
  "steady_session = \<lparr>respond = (\<lambda>log p. Inr example_data), calls = []\<rparr>"

definition flaky_session :: session where
  "flaky_session =
     \<lparr>respond = (\<lambda>log p. if log = [] then Inl (LiveResponseError ''timeout'') else Inr example_data),
      calls = []\<rparr>"


text \<open>
  A table of three mappings, the plugin before initialisation, and two tables of
  failures: nothing fails, or the one given name (or root) fails with a
  \<open>RegistryError\<close>.
\<close>

definition example_mappings :: "(string \<times> string) list" where
  "example_mappings =
     [(''HKLM'', ''HKEY_LOCAL_MACHINE''), (''HKCU'', ''HKEY_CURRENT_USER''), (''HKU'', ''HKEY_USERS'')]"

definition empty_plugin :: registry_plugin where
  "empty_plugin = \<lparr>hives = [], mapped = []\<rparr>"

definition no_failure :: "string \<Rightarrow> error option" where
  "no_failure x = None"

definition fails_on :: "string \<Rightarrow> string \<Rightarrow> error option" where
  "fails_on bad x = (if x = bad then Some (RegistryError ''unavailable'') else None)"

subsection \<open>The encodings in the spec's words\<close>



definition hex :: "8 word list \<Rightarrow> string" where
  "hex bs =
     concat (map (\<lambda>b. [''0123456789abcdef'' ! (unat b div 16),
                        ''0123456789abcdef'' ! (unat b mod 16)]) bs)"






section \<open>Properties\<close>

subsection \<open>Splitting at a separator\<close>

lemma split_nonempty: "split sep s \<noteq> []"
  by (induction s) (auto split: list.splits)

lemma split_no_sep: "sep \<notin> set b \<Longrightarrow> split sep b = [b]"
  by (induction b) (auto split: list.splits)

lemma last_split_Cons: "last (split sep (c # a @ sep # b)) = last (split sep (a @ sep # b))"
proof -
  have "length (split sep (a @ sep # b)) \<ge> 2"
    by (induction a) (auto split: list.splits simp: split_nonempty Suc_le_eq)
  then obtain w v ws where "split sep (a @ sep # b) = w # v # ws"
    by (cases "split sep (a @ sep # b)"; cases "tl (split sep (a @ sep # b))") auto
  then show ?thesis by auto
qed

lemma split_append_sep: "sep \<notin> set b \<Longrightarrow> last (split sep (a @ sep # b)) = b"
proof (induction a)
  case Nil
  then show ?case by (simp add: split_no_sep)
next
  case (Cons c a)
  have "last (split sep ((c # a) @ sep # b)) = last (split sep (a @ sep # b))"
    using last_split_Cons[of sep c a b] by simp
  then show ?case using Cons by simp
qed

subsection \<open>The hive manufactures nodes without touching the session\<close>

text \<open>
  Claim C9. \<open>CbRegistryHive.key\<close> takes no session and returns none: it is a function of
  the hive and the relative path alone. The node it returns has the path
  \<open>rootkey + "\" + p\<close>, an empty cache (nothing was fetched or validated) and the hive it
  came from; its \<open>name\<close> is the last backslash-separated segment of that path, that is,
  the part \<open>n\<close> of the one way to write the path as \<open>pre + "\" + n\<close> with no backslash
  in \<open>n\<close>.
\<close>

theorem hive_key_path_name:
  "path (hive_key h p) = rootkey h @ [backslash] @ p
   \<and> data_cache (hive_key h p) = None
   \<and> hive (hive_key h p) = h
   \<and> (\<forall>pre n. path (hive_key h p) = pre @ [backslash] @ n \<and> backslash \<notin> set n
         \<longrightarrow> name (hive_key h p) = Inr n)
   \<and> (\<exists>pre n. path (hive_key h p) = pre @ [backslash] @ n \<and> backslash \<notin> set n)"
proof -
  let ?k = "hive_key h p"
  have p: "path ?k = rootkey h @ [backslash] @ p"
    by (simp add: path_def hive_key_def CbRegistryKey_init_def)
  have n: "name ?k = Inr (last (split backslash (path ?k)))"
    by (simp add: name_def path_def split_nonempty split: list.splits)
  have "backslash \<in> set (path ?k)" using p by simp
  then obtain a b where ab: "path ?k = a @ backslash # b" "backslash \<notin> set b"
    using split_list_last by metis
  have u: "name ?k = Inr m" if "path ?k = pre @ [backslash] @ m" "backslash \<notin> set m" for pre m
    using that n split_append_sep[of backslash m pre] by simp
  show ?thesis using p ab u by (simp add: hive_key_def CbRegistryKey_init_def) blast
qed

text \<open>
  The instance of the claim: the hive rooted at \<open>HKEY_LOCAL_MACHINE\<close> gives
  \<open>key("SOFTWARE")\<close> the path \<open>HKEY_LOCAL_MACHINE\SOFTWARE\<close> and the name \<open>SOFTWARE\<close>.
\<close>

theorem hive_key_path_name_witness:
  "path (hive_key \<lparr>rootkey = ''HKEY_LOCAL_MACHINE''\<rparr> ''SOFTWARE'')
     = ''HKEY_LOCAL_MACHINE'' @ [backslash] @ ''SOFTWARE''
   \<and> name (hive_key \<lparr>rootkey = ''HKEY_LOCAL_MACHINE''\<rparr> ''SOFTWARE'') = Inr ''SOFTWARE''"
proof -
  let ?h = "\<lparr>rootkey = ''HKEY_LOCAL_MACHINE''\<rparr>"
  note t = hive_key_path_name [of ?h "''SOFTWARE''"]
  have p: "path (hive_key ?h ''SOFTWARE'') = ''HKEY_LOCAL_MACHINE'' @ [backslash] @ ''SOFTWARE''"
    using t by simp
  have "backslash \<notin> set ''SOFTWARE''" by simp
  with t p have "name (hive_key ?h ''SOFTWARE'') = Inr ''SOFTWARE''" by blast
  with p show ?thesis by simp
qed

subsection \<open>The cache of a node\<close>

lemma data_cached:
  "data_cache k = Some d \<Longrightarrow> \<not> empty_dict d \<Longrightarrow> data s k = (Inr d, s, k)"
  by (simp add: data_def not_data_def)

lemma sub_keys_not_empty: "sub_keys d = Some vals \<Longrightarrow> \<not> empty_dict d"
  by (simp add: empty_dict_def)

lemma reg_values_not_empty: "reg_values d = Some recs \<Longrightarrow> \<not> empty_dict d"
  by (simp add: empty_dict_def)

text \<open>
  Claim C4. When the node has nothing usable in its cache and the remote call raises,
  the property \<open>data\<close> lets the same exception out, logs one call and leaves the node as
  it was. The next access calls the session again: the log grows by a second call, and
  the outcome is whatever the session answers this time, cached only if it is an answer.
\<close>

theorem failed_fetch_not_cached:
  assumes "not_data (data_cache k)" and "respond s (calls s) (key k) = Inl e"
  shows "data s k = (Inl e, s\<lparr>calls := calls s @ [key k]\<rparr>, k)
    \<and> data (s\<lparr>calls := calls s @ [key k]\<rparr>) k =
        (case respond s (calls s @ [key k]) (key k) of
           Inl e' \<Rightarrow> (Inl e', s\<lparr>calls := calls s @ [key k, key k]\<rparr>, k)
         | Inr d \<Rightarrow> (Inr d, s\<lparr>calls := calls s @ [key k, key k]\<rparr>, k\<lparr>data_cache := Some d\<rparr>))"
  using assms by (simp add: data_def list_registry_keys_and_values_def split: sum.splits)

theorem failed_fetch_not_cached_witness:
  "not_data (data_cache fresh_node)
   \<and> respond flaky_session (calls flaky_session) (key fresh_node) = Inl (LiveResponseError ''timeout'')
   \<and> data flaky_session fresh_node =
       (Inl (LiveResponseError ''timeout''), flaky_session\<lparr>calls := [key fresh_node]\<rparr>, fresh_node)
   \<and> data (flaky_session\<lparr>calls := [key fresh_node]\<rparr>) fresh_node =
       (Inr example_data, flaky_session\<lparr>calls := [key fresh_node, key fresh_node]\<rparr>,
        fresh_node\<lparr>data_cache := Some example_data\<rparr>)"
proof -
  have a: "not_data (data_cache fresh_node)"
    by (simp add: fresh_node_def hive_key_def CbRegistryKey_init_def not_data_def)
  have b: "respond flaky_session (calls flaky_session) (key fresh_node)
             = Inl (LiveResponseError ''timeout'')"
    by (simp add: flaky_session_def)
  have c: "respond flaky_session (calls flaky_session @ [key fresh_node]) (key fresh_node)
             = Inr example_data"
    by (simp add: flaky_session_def)
  have d: "calls flaky_session = []" by (simp add: flaky_session_def)
  show ?thesis using failed_fetch_not_cached [OF a b] a b c d by simp
qed

subsection \<open>Looking up and walking child keys\<close>

lemma subkey_loop_found:
  "\<exists>v\<in>set vals. lower v = lower n
   \<Longrightarrow> subkey_loop k n vals = Inr \<lparr>hive = hive k, key = key k @ [backslash] @ n, data_cache = None\<rparr>"
  by (induction vals) (auto simp: CbRegistryKey_init_def)


lemma subkey_cached:
  "data_cache k = Some d \<Longrightarrow> sub_keys d = Some vals
   \<Longrightarrow> subkey s k n = (subkey_loop k n vals, s, k)"
  by (simp add: subkey_def data_cached sub_keys_not_empty)



lemma subkeys_list_cached:
  assumes "data_cache k = Some d" and "sub_keys d = Some vals"
  shows "set it \<subseteq> set vals \<Longrightarrow>
     subkeys_list s k it =
       (Inr (map (\<lambda>n. \<lparr>hive = hive k, key = key k @ [backslash] @ n, data_cache = None\<rparr>) it), s, k)"
proof (induction it)
  case Nil
  show ?case by (subst subkeys_list.simps) (simp add: subkeys_next_def)
next
  case (Cons n ns)
  have "subkey s k n = (Inr \<lparr>hive = hive k, key = key k @ [backslash] @ n, data_cache = None\<rparr>, s, k)"
  proof -
    have "\<exists>v\<in>set vals. lower v = lower n" using Cons.prems by auto
    then show ?thesis using assms by (simp add: subkey_cached subkey_loop_found)
  qed
  then show ?case using Cons
    by (subst subkeys_list.simps) (simp add: subkeys_next_def)
qed

text \<open>
  Claim C8. Let the node hold a fetched answer with the child list \<open>vals\<close>. \<open>subkeys()\<close>
  returns an iterator over exactly that list, and walking it to its end gives one node
  per entry, in the order of the list, each with the path \<open>path + "\" + entry\<close>: a finite
  list as long as \<open>vals\<close>. Neither the call nor the walk changes the session (no remote
  call is logged) or the node, so calling and walking \<open>subkeys()\<close> again starts from the
  same state and gives the same nodes.
\<close>

theorem subkeys_walks_cached_list:
  assumes "data_cache k = Some d" and "sub_keys d = Some vals"
  shows "subkeys s k = (Inr vals, s, k)
    \<and> subkeys_list s k vals =
       (Inr (map (\<lambda>n. \<lparr>hive = hive k, key = path k @ [backslash] @ n, data_cache = None\<rparr>) vals),
        s, k)
    \<and> run_calls (s, k) [Subkeys, Subkeys] = (s, k)"
proof -
  have a: "subkeys s k = (Inr vals, s, k)"
    using assms by (simp add: subkeys_def data_cached sub_keys_not_empty)
  have b: "subkeys_list s k vals =
       (Inr (map (\<lambda>n. \<lparr>hive = hive k, key = path k @ [backslash] @ n, data_cache = None\<rparr>) vals),
        s, k)"
    using subkeys_list_cached[OF assms, of vals s] by (simp add: path_def)
  show ?thesis using a b by (simp add: run_calls_def)
qed

theorem subkeys_walks_cached_list_witness:
  "data_cache example_node = Some example_data
   \<and> sub_keys example_data = Some [''System'', ''Software'']
   \<and> subkeys steady_session example_node = (Inr [''System'', ''Software''], steady_session, example_node)
   \<and> subkeys_list steady_session example_node [''System'', ''Software''] =
       (Inr [\<lparr>hive = example_hive, key = ''HKEY_LOCAL_MACHINE'' @ [backslash] @ ''System'',
               data_cache = None\<rparr>,
             \<lparr>hive = example_hive, key = ''HKEY_LOCAL_MACHINE'' @ [backslash] @ ''Software'',
               data_cache = None\<rparr>],
        steady_session, example_node)
   \<and> calls (fst (run_calls (steady_session, example_node) [Subkeys, Subkeys])) = []"
proof -
  have a: "data_cache example_node = Some example_data" by (simp add: example_node_def)
  have b: "sub_keys example_data = Some [''System'', ''Software'']" by (simp add: example_data_def)
  have p: "path example_node = ''HKEY_LOCAL_MACHINE''" "hive example_node = example_hive"
    by (simp_all add: path_def example_node_def)
  have c: "calls steady_session = []" by (simp add: steady_session_def)
  show ?thesis
    using subkeys_walks_cached_list [OF a b, of steady_session] a b p c by simp
qed

subsection \<open>Memoization of the fetched answer\<close>







subsection \<open>Enumerating and looking up values\<close>

declare values_trace.simps [simp del]
declare value_loop.simps [simp del]

lemma values_cached:
  "data_cache k = Some d \<Longrightarrow> reg_values d = Some recs \<Longrightarrow> values' s k = (Inr recs, s, k)"
  by (simp add: values'_def data_cached reg_values_not_empty)

lemma values_trace_Nil: "values_trace k [] = []"
  by (subst values_trace.simps) (simp add: values_next_def)

lemma values_trace_good:
  "construct k r = Inr v \<Longrightarrow> values_trace k (r # rs) = Yield v # values_trace k rs"
  by (subst values_trace.simps) (simp add: values_next_def)

lemma values_trace_bad:
  "construct k r = Inl e \<Longrightarrow> values_trace k (r # rs) = [Raise e]"
  by (subst values_trace.simps) (simp add: values_next_def values_trace_Nil)

lemma values_trace_prefix:
  "map (construct k) good = map Inr vs
   \<Longrightarrow> values_trace k (good @ rs) = map Yield vs @ values_trace k rs"
proof (induction good arbitrary: vs)
  case Nil
  then show ?case by simp
next
  case (Cons r good)
  then obtain v vs' where v: "vs = v # vs'" "construct k r = Inr v"
    "map (construct k) good = map Inr vs'"
    by (cases vs) auto
  then show ?case using Cons.IH[of vs'] by (simp add: values_trace_good)
qed

text \<open>
  Claim C2, as the code has it. Let the node hold a fetched answer with the value
  records \<open>recs\<close>. \<open>values()\<close> returns a generator over \<open>recs\<close> without a remote call. A
  caller that keeps calling \<open>next()\<close> until the end gets, in order, the values of the
  records in front of the first malformed record, then the decoding error of that
  record, and then the end: no record behind the first malformed one is yielded,
  well-formed or not. When no record is malformed, every record is yielded.
\<close>

theorem values_stop_at_first_malformed:
  assumes "data_cache k = Some d" and "reg_values d = Some recs"
  shows "values' s k = (Inr recs, s, k)
    \<and> (\<forall>good bad rest vs e.
          recs = good @ bad # rest \<and> map (construct k) good = map Inr vs
            \<and> construct k bad = Inl e
          \<longrightarrow> values_trace k recs = map Yield vs @ [Raise e])
    \<and> (\<forall>vs. map (construct k) recs = map Inr vs \<longrightarrow> values_trace k recs = map Yield vs)"
proof -
  have a: "values' s k = (Inr recs, s, k)" using assms by (rule values_cached)
  have b: "values_trace k recs = map Yield vs @ [Raise e]"
    if "recs = good @ bad # rest" "map (construct k) good = map Inr vs" "construct k bad = Inl e"
    for good bad rest vs e
    using that by (simp add: values_trace_prefix values_trace_bad)
  have c: "values_trace k recs = map Yield vs" if "map (construct k) recs = map Inr vs" for vs
    using values_trace_prefix[OF that, of "[]"] by (simp add: values_trace_Nil)
  show ?thesis using a b c by blast
qed

theorem values_stop_at_first_malformed_witness:
  "data_cache example_node = Some example_data
   \<and> reg_values example_data = Some example_records
   \<and> example_records = [example_records ! 0] @ (example_records ! 1) # [example_records ! 2]
   \<and> construct example_node (example_records ! 1) = Inl ValueError
   \<and> values' steady_session example_node = (Inr example_records, steady_session, example_node)
   \<and> values_trace example_node example_records =
       [Yield \<lparr>value_hive = example_hive, value_name = ''Start'', value_type = ''pbREG_DWORD'',
                value_payload = IntVal 2\<rparr>,
        Raise ValueError]"
proof -
  have a: "data_cache example_node = Some example_data" by (simp add: example_node_def)
  have b: "reg_values example_data = Some example_records" by (simp add: example_data_def)
  have c: "example_records = [example_records ! 0] @ (example_records ! 1) # [example_records ! 2]"
    by (simp add: example_records_def)
  have g: "map (construct example_node) [example_records ! 0] =
             map Inr [\<lparr>value_hive = example_hive, value_name = ''Start'',
                       value_type = ''pbREG_DWORD'', value_payload = IntVal 2\<rparr>]"
    by (simp add: example_records_def construct_def CbRegistryValue_init_def decode_def
          example_node_def int_py_def Py_ISSPACE_def is_digit_def underscore_def digits_value_def)
  have e: "construct example_node (example_records ! 1) = Inl ValueError"
    by (simp add: example_records_def construct_def CbRegistryValue_init_def decode_def
          digit_value_def Py_ISSPACE_def)
  note t = values_stop_at_first_malformed [OF a b, of steady_session]
  have t1: "values' steady_session example_node = (Inr example_records, steady_session, example_node)"
    using t by blast
  have t2: "values_trace example_node example_records =
       map Yield [\<lparr>value_hive = example_hive, value_name = ''Start'',
                   value_type = ''pbREG_DWORD'', value_payload = IntVal 2\<rparr>] @ [Raise ValueError]"
    using t c g e by blast
  show ?thesis using a b c e t1 t2 by simp
qed

text \<open>
  The claim as stated fails on the example records: the third record is well-formed, yet
  after the bad hex of the second record the generator is finished, and the value of the
  third record is never yielded.
\<close>

theorem values_enumeration_counterexample:
  "construct example_node (example_records ! 2) =
     Inr \<lparr>value_hive = example_hive, value_name = ''Path'', value_type = ''pbREG_SZ'',
          value_payload = StrVal ''system32''\<rparr>
   \<and> values_trace example_node example_records =
       [Yield \<lparr>value_hive = example_hive, value_name = ''Start'', value_type = ''pbREG_DWORD'',
                value_payload = IntVal 2\<rparr>,
        Raise ValueError]
   \<and> Yield \<lparr>value_hive = example_hive, value_name = ''Path'', value_type = ''pbREG_SZ'',
             value_payload = StrVal ''system32''\<rparr>
       \<notin> set (values_trace example_node example_records)"
proof -
  have g: "construct example_node (example_records ! 0) =
             Inr \<lparr>value_hive = example_hive, value_name = ''Start'',
                  value_type = ''pbREG_DWORD'', value_payload = IntVal 2\<rparr>"
    by (simp add: example_records_def construct_def CbRegistryValue_init_def decode_def
          example_node_def int_py_def Py_ISSPACE_def is_digit_def underscore_def digits_value_def)
  have e: "construct example_node (example_records ! 1) = Inl ValueError"
    by (simp add: example_records_def construct_def CbRegistryValue_init_def decode_def
          digit_value_def Py_ISSPACE_def)
  have p: "construct example_node (example_records ! 2) =
     Inr \<lparr>value_hive = example_hive, value_name = ''Path'', value_type = ''pbREG_SZ'',
          value_payload = StrVal ''system32''\<rparr>"
    by (simp add: example_records_def construct_def CbRegistryValue_init_def decode_def
          example_node_def)
  have r: "example_records = (example_records ! 0) # (example_records ! 1) # [example_records ! 2]"
    by (simp add: example_records_def)
  have t0: "values_trace example_node
              ((example_records ! 0) # (example_records ! 1) # [example_records ! 2]) =
       [Yield \<lparr>value_hive = example_hive, value_name = ''Start'', value_type = ''pbREG_DWORD'',
                value_payload = IntVal 2\<rparr>,
        Raise ValueError]"
    by (simp only: values_trace_good[OF g] values_trace_bad[OF e])
  have t: "values_trace example_node example_records =
       [Yield \<lparr>value_hive = example_hive, value_name = ''Start'', value_type = ''pbREG_DWORD'',
                value_payload = IntVal 2\<rparr>,
        Raise ValueError]"
    by (subst r) (rule t0)
  show ?thesis using p t by simp
qed









subsection \<open>Initialising the mapper\<close>

lemma add_hive_None:
  "af nm = None \<Longrightarrow> add_hive af nm h pth p = (None, p\<lparr>hives := hives p @ [(nm, h)]\<rparr>)"
  by (simp add: add_hive_def)

lemma add_hive_Some: "af nm = Some e \<Longrightarrow> add_hive af nm h pth p = (Some e, p)"
  by (simp add: add_hive_def)

lemma map_hive_None:
  "mf loc = None \<Longrightarrow> map_hive mf loc h p = (None, p\<lparr>mapped := mapped p @ [(loc, h)]\<rparr>)"
  by (simp add: map_hive_def)

lemma map_hive_Some: "mf loc = Some e \<Longrightarrow> map_hive mf loc h p = (Some e, p)"
  by (simp add: map_hive_def)

lemma init_registry_no_raise:
  assumes "\<And>nm h pth p e p'. add_hive_p nm h pth p = (Some e, p') \<Longrightarrow> is_RegistryError e"
    and "\<And>loc h p e p'. map_hive_p loc h p = (Some e, p') \<Longrightarrow> is_RegistryError e"
  shows "fst (init_registry add_hive_p map_hive_p ms p) = None"
proof (induction ms arbitrary: p)
  case Nil
  show ?case by simp
next
  case (Cons m ms)
  obtain nm rk where m: "m = (nm, rk)" by (cases m)
  show ?case
    using Cons assms unfolding m
    by (auto simp: Let_def split: prod.splits option.splits)
qed

lemma init_registry_modelled:
  assumes af: "\<And>x e. af x = Some e \<Longrightarrow> is_RegistryError e"
    and mf: "\<And>x e. mf x = Some e \<Longrightarrow> is_RegistryError e"
  shows "init_registry (add_hive af) (map_hive mf) ms p =
      (None,
       p\<lparr>hives := hives p @ map (\<lambda>(nm, rk). (nm, \<lparr>rootkey = rk\<rparr>))
                              (filter (\<lambda>(nm, rk). af nm = None) ms),
         mapped := mapped p @ map (\<lambda>(nm, rk). (rk, \<lparr>rootkey = rk\<rparr>))
                                (filter (\<lambda>(nm, rk). af nm = None \<and> mf rk = None) ms)\<rparr>)"
proof (induction ms arbitrary: p)
  case Nil
  show ?case by simp
next
  case (Cons m ms)
  obtain nm rk where m: "m = (nm, rk)" by (cases m)
  show ?case
  proof (cases "af nm")
    case (Some e)
    then show ?thesis using af[OF Some] unfolding m
      by (simp add: add_hive_Some Cons.IH Let_def)
  next
    case None
    show ?thesis
    proof (cases "mf rk")
      case (Some e)
      then show ?thesis using None mf[OF Some] unfolding m
        by (simp add: add_hive_None map_hive_Some Cons.IH Let_def)
    next
      case mNone: None
      then show ?thesis using None unfolding m
        by (simp add: add_hive_None map_hive_None Cons.IH Let_def)
    qed
  qed
qed

lemma fails_on_registry: "fails_on bad x = Some e \<Longrightarrow> is_RegistryError e"
  by (auto simp: fails_on_def split: if_splits)

lemma no_failure_registry: "no_failure x = Some e \<Longrightarrow> is_RegistryError e"
  by (simp add: no_failure_def)

text \<open>
  Claim C3, as the code has it. First, for any \<open>add_hive\<close> and \<open>map_hive\<close> that raise
  nothing but registry-layer errors, and any table, the loop returns without raising.
  Second, with the two methods as the spec describes them: the loop visits every entry
  of the table; an entry whose \<open>add_hive\<close> raises leaves nothing behind; an entry whose
  \<open>map_hive\<close> raises keeps the hive that \<open>add_hive\<close> has registered before (the
  \<open>except\<close> branch undoes nothing) and only lacks the root mapping. So the hives of
  the mapper are those of the entries whose \<open>add_hive\<close> returned, in table order, and
  the root mappings are those of the entries for which both calls returned.
\<close>

theorem init_registry_tolerant:
  "((\<forall>nm h pth p e p'. add_hive_p nm h pth p = (Some e, p') \<longrightarrow> is_RegistryError e)
      \<and> (\<forall>loc h p e p'. map_hive_p loc h p = (Some e, p') \<longrightarrow> is_RegistryError e)
    \<longrightarrow> fst (init_registry add_hive_p map_hive_p ms p0) = None)
   \<and> ((\<forall>x e. af x = Some e \<longrightarrow> is_RegistryError e)
      \<and> (\<forall>x e. mf x = Some e \<longrightarrow> is_RegistryError e)
    \<longrightarrow> init_registry (add_hive af) (map_hive mf) ms p =
         (None,
          p\<lparr>hives := hives p @ map (\<lambda>(nm, rk). (nm, \<lparr>rootkey = rk\<rparr>))
                                 (filter (\<lambda>(nm, rk). af nm = None) ms),
            mapped := mapped p @ map (\<lambda>(nm, rk). (rk, \<lparr>rootkey = rk\<rparr>))
                                   (filter (\<lambda>(nm, rk). af nm = None \<and> mf rk = None) ms)\<rparr>))"
proof (intro conjI impI)
  assume "(\<forall>nm h pth p e p'. add_hive_p nm h pth p = (Some e, p') \<longrightarrow> is_RegistryError e)
      \<and> (\<forall>loc h p e p'. map_hive_p loc h p = (Some e, p') \<longrightarrow> is_RegistryError e)"
  then show "fst (init_registry add_hive_p map_hive_p ms p0) = None"
    by (intro init_registry_no_raise) blast+
next
  assume "(\<forall>x e. af x = Some e \<longrightarrow> is_RegistryError e)
      \<and> (\<forall>x e. mf x = Some e \<longrightarrow> is_RegistryError e)"
  then show "init_registry (add_hive af) (map_hive mf) ms p =
         (None,
          p\<lparr>hives := hives p @ map (\<lambda>(nm, rk). (nm, \<lparr>rootkey = rk\<rparr>))
                                 (filter (\<lambda>(nm, rk). af nm = None) ms),
            mapped := mapped p @ map (\<lambda>(nm, rk). (rk, \<lparr>rootkey = rk\<rparr>))
                                   (filter (\<lambda>(nm, rk). af nm = None \<and> mf rk = None) ms)\<rparr>)"
    by (intro init_registry_modelled) blast+
qed

text \<open>
  Three mappings, the second of which fails in \<open>add_hive\<close>: the mapper holds exactly the
  hives and the root mappings of the first and the third, and nothing is raised.
\<close>

theorem init_registry_tolerant_witness:
  "fst (init_registry (add_hive (fails_on ''HKCU'')) (map_hive no_failure)
             example_mappings empty_plugin) = None
   \<and> init_registry (add_hive (fails_on ''HKCU'')) (map_hive no_failure)
        example_mappings empty_plugin =
       (None,
        \<lparr>hives = [(''HKLM'', \<lparr>rootkey = ''HKEY_LOCAL_MACHINE''\<rparr>),
                  (''HKU'', \<lparr>rootkey = ''HKEY_USERS''\<rparr>)],
         mapped = [(''HKEY_LOCAL_MACHINE'', \<lparr>rootkey = ''HKEY_LOCAL_MACHINE''\<rparr>),
                   (''HKEY_USERS'', \<lparr>rootkey = ''HKEY_USERS''\<rparr>)]\<rparr>)"
proof -
  have a: "\<forall>x e. fails_on ''HKCU'' x = Some e \<longrightarrow> is_RegistryError e"
    using fails_on_registry by blast
  have b: "\<forall>x e. no_failure x = Some e \<longrightarrow> is_RegistryError e"
    using no_failure_registry by blast
  have a': "\<forall>nm h pth p e p'. add_hive (fails_on ''HKCU'') nm h pth p = (Some e, p')
              \<longrightarrow> is_RegistryError e"
    using a by (auto simp: add_hive_def split: option.splits)
  have b': "\<forall>loc h p e p'. map_hive no_failure loc h p = (Some e, p') \<longrightarrow> is_RegistryError e"
    by (auto simp: map_hive_def no_failure_def)
  note t = init_registry_tolerant [where add_hive_p = "add_hive (fails_on ''HKCU'')"
      and map_hive_p = "map_hive no_failure" and ms = example_mappings and ?p0.0 = empty_plugin
      and af = "fails_on ''HKCU''" and mf = no_failure and p = empty_plugin]
  have t1: "fst (init_registry (add_hive (fails_on ''HKCU'')) (map_hive no_failure)
             example_mappings empty_plugin) = None"
    using t a' b' by blast
  have t2: "init_registry (add_hive (fails_on ''HKCU'')) (map_hive no_failure)
        example_mappings empty_plugin =
         (None,
          empty_plugin\<lparr>hives := hives empty_plugin @ map (\<lambda>(nm, rk). (nm, \<lparr>rootkey = rk\<rparr>))
                                 (filter (\<lambda>(nm, rk). fails_on ''HKCU'' nm = None) example_mappings),
            mapped := mapped empty_plugin @ map (\<lambda>(nm, rk). (rk, \<lparr>rootkey = rk\<rparr>))
               (filter (\<lambda>(nm, rk). fails_on ''HKCU'' nm = None \<and> no_failure rk = None)
                  example_mappings)\<rparr>)"
    using t a b by blast
  have t3: "init_registry (add_hive (fails_on ''HKCU'')) (map_hive no_failure)
        example_mappings empty_plugin =
       (None,
        \<lparr>hives = [(''HKLM'', \<lparr>rootkey = ''HKEY_LOCAL_MACHINE''\<rparr>),
                  (''HKU'', \<lparr>rootkey = ''HKEY_USERS''\<rparr>)],
         mapped = [(''HKEY_LOCAL_MACHINE'', \<lparr>rootkey = ''HKEY_LOCAL_MACHINE''\<rparr>),
                   (''HKEY_USERS'', \<lparr>rootkey = ''HKEY_USERS''\<rparr>)]\<rparr>)"
    by (subst t2) (simp add: example_mappings_def empty_plugin_def fails_on_def no_failure_def)
  show ?thesis using t1 t3 by blast
qed

text \<open>
  The claim as stated fails when the second mapping fails in \<open>map_hive\<close>: only the
  second entry raises, and still the mapper holds the hive of the second mapping next to
  those of the first and the third.
\<close>

theorem init_registry_counterexample:
  "init_registry (add_hive no_failure) (map_hive (fails_on ''HKEY_CURRENT_USER''))
     example_mappings empty_plugin =
       (None,
        \<lparr>hives = [(''HKLM'', \<lparr>rootkey = ''HKEY_LOCAL_MACHINE''\<rparr>),
                  (''HKCU'', \<lparr>rootkey = ''HKEY_CURRENT_USER''\<rparr>),
                  (''HKU'', \<lparr>rootkey = ''HKEY_USERS''\<rparr>)],
         mapped = [(''HKEY_LOCAL_MACHINE'', \<lparr>rootkey = ''HKEY_LOCAL_MACHINE''\<rparr>),
                   (''HKEY_USERS'', \<lparr>rootkey = ''HKEY_USERS''\<rparr>)]\<rparr>)
   \<and> map fst (hives (snd (init_registry (add_hive no_failure)
                              (map_hive (fails_on ''HKEY_CURRENT_USER''))
                              example_mappings empty_plugin)))
       \<noteq> [''HKLM'', ''HKU'']"
  by (simp add: example_mappings_def empty_plugin_def add_hive_def map_hive_def
        no_failure_def fails_on_def Let_def)

subsection \<open>Decoding binary values\<close>














subsection \<open>Decoding integer values\<close>














subsection \<open>The hex encoding determines the bytes\<close>

lemma hex_digit_inj:
  assumes "i < 16" and "j < 16" and "''0123456789abcdef'' ! i = ''0123456789abcdef'' ! j"
  shows "i = j"
proof -
  have "distinct ''0123456789abcdef''" by simp
  moreover have "i < length ''0123456789abcdef''" "j < length ''0123456789abcdef''"
    using assms by simp_all
  ultimately show ?thesis using assms(3) nth_eq_iff_index_eq by blast
qed

lemma hex_inj: "hex bs = hex bs' \<Longrightarrow> bs = bs'"
proof (induction bs arbitrary: bs')
  case Nil
  then show ?case by (cases bs') (simp_all add: hex_def)
next
  case (Cons b bs)
  then obtain c cs where c: "bs' = c # cs" by (cases bs') (auto simp: hex_def)
  have lt: "unat b < 256" "unat c < 256"
    using unsigned_less[of b, where ?'a = nat] unsigned_less[of c, where ?'a = nat] by simp_all
  from Cons.prems c have
    d: "''0123456789abcdef'' ! (unat b div 16) = ''0123456789abcdef'' ! (unat c div 16)"
    and m: "''0123456789abcdef'' ! (unat b mod 16) = ''0123456789abcdef'' ! (unat c mod 16)"
    and r: "hex bs = hex cs"
    by (simp_all add: hex_def)
  have "unat b div 16 = unat c div 16"
    using lt by (intro hex_digit_inj[OF _ _ d]) simp_all
  moreover have "unat b mod 16 = unat c mod 16"
    by (intro hex_digit_inj[OF _ _ m]) simp_all
  ultimately have "unat b = unat c" by (metis div_mult_mod_eq)
  then have "b = c" by (simp add: word_unat_eq_iff)
  then show ?case using Cons.IH[OF r] c by simp
qed

end
